theory Spec2Isabelle
  imports Main "HOL-Library.Sublist" "HOL-Library.Char_ord" "HOL-Library.List_Lexorder"
begin

text \<open>
  A shallow embedding of \<^verbatim>\<open>recipe_processor.py\<close>: the ingredient normalizer, the
  quantity and unit parser, the category classifier, the ingredient list processor, the
  list merger, the transcript instruction extractor and the recipe summary builder of class
  \<^verbatim>\<open>RecipeProcessor\<close>.
\<close>

section \<open>Strings\<close>

text \<open>
  A Python string is a sequence of code points. It is modelled as a \<open>string\<close> whose
  characters are the code points below 256 (Latin-1), which covers every literal of the
  source, the e-acute of its last pattern included, and is closed under lower-casing. On
  this range \<^verbatim>\<open>str.isspace\<close>, the class \<^verbatim>\<open>\s\<close> of a regular expression and
  \<^verbatim>\<open>str.strip\<close> agree on the whitespace characters: tab to carriage return, the four
  separators 28 to 31, the blank, and the code points 133 and 160. The class \<^verbatim>\<open>\d\<close>
  has the ten digits. \<^verbatim>\<open>str.lower\<close> adds 32 to the letters A to Z and to the accented
  capitals 192 to 222, the multiplication sign 215 excepted, and leaves every other
  character as it is. Strings are compared as Python compares them, lexicographically by
  code point.
\<close>

definition is_space :: "char \<Rightarrow> bool" where
  "is_space c = ((of_char c :: nat) \<in> {9, 10, 11, 12, 13, 28, 29, 30, 31, 32, 133, 160})"

definition is_digit :: "char \<Rightarrow> bool" where
  "is_digit c = (48 \<le> (of_char c :: nat) \<and> (of_char c :: nat) \<le> 57)"

definition is_upper :: "char \<Rightarrow> bool" where
  "is_upper c = (let n = (of_char c :: nat)
                 in (65 \<le> n \<and> n \<le> 90) \<or> (192 \<le> n \<and> n \<le> 222 \<and> n \<noteq> 215))"

definition lower_char :: "char \<Rightarrow> char" where
  "lower_char c = (if is_upper c then char_of ((of_char c :: nat) + 32) else c)"

definition lower :: "string \<Rightarrow> string" where
  "lower s = map lower_char s"

text \<open>\<^verbatim>\<open>s.strip()\<close> removes the whitespace at both ends.\<close>

definition strip :: "string \<Rightarrow> string" where
  "strip s = rev (dropWhile is_space (rev (dropWhile is_space s)))"

text \<open>
  \<^verbatim>\<open>re.sub(r'\s+', ' ', s)\<close> replaces every maximal run of whitespace by one blank.
\<close>

function sub_spaces :: "string \<Rightarrow> string" where
  "sub_spaces [] = []"
| "sub_spaces (c # cs) =
     (if is_space c then CHR '' '' # sub_spaces (dropWhile is_space cs)
      else c # sub_spaces cs)"
  by pat_completeness auto
termination
  by (relation "measure length") (auto simp: length_dropWhile_le less_Suc_eq_le)

text \<open>
  \<^verbatim>\<open>clean_ingredient\<close>: strip, collapse the whitespace, lower-case. The list
  \<^verbatim>\<open>cooking_words\<close> of the source is never used.
\<close>

definition clean_ingredient :: "string \<Rightarrow> string" where
  "clean_ingredient ingredient = lower (sub_spaces (strip ingredient))"


section \<open>Category classifier\<close>

text \<open>
  \<^verbatim>\<open>self.food_categories\<close> is a dictionary literal; Python iterates a dictionary in
  insertion order, so it is the list of its entries as the source writes them: Frozen
  comes before Bakery and Condiments. \<^verbatim>\<open>keyword in ingredient_lower\<close> is the substring
  test \<open>sublist\<close>. The two nested loops return at the first hit; \<open>keyword_loop\<close> is
  the inner one and \<open>category_loop\<close> the outer one, which falls through to Other.
\<close>

definition food_categories :: "(string \<times> string list) list" where
  "food_categories =
    [(''Produce'', [''onion'', ''garlic'', ''tomato'', ''carrot'', ''celery'', ''pepper'',
        ''lettuce'', ''spinach'', ''broccoli'', ''mushroom'', ''lemon'', ''lime'', ''apple'',
        ''banana'', ''potato'', ''herbs'']),
     (''Meat & Seafood'', [''chicken'', ''beef'', ''pork'', ''fish'', ''salmon'', ''shrimp'',
        ''turkey'', ''bacon'', ''ground beef'', ''sausage'', ''lamb'']),
     (''Dairy & Eggs'', [''milk'', ''cheese'', ''butter'', ''yogurt'', ''cream'', ''eggs'',
        ''sour cream'', ''mozzarella'', ''parmesan'', ''cheddar'']),
     (''Pantry Staples'', [''flour'', ''sugar'', ''salt'', ''pepper'', ''oil'', ''vinegar'',
        ''pasta'', ''rice'', ''beans'', ''spices'', ''sauce'', ''stock'', ''broth'']),
     (''Frozen'', [''frozen vegetables'', ''frozen fruit'', ''ice cream'', ''frozen pizza'']),
     (''Bakery'', [''bread'', ''rolls'', ''bagels'', ''croissants'', ''tortillas'']),
     (''Condiments'', [''ketchup'', ''mustard'', ''mayo'', ''hot sauce'', ''soy sauce'',
        ''worcestershire''])]"

fun keyword_loop :: "string list \<Rightarrow> string \<Rightarrow> bool" where
  "keyword_loop [] ingredient_lower = False"
| "keyword_loop (keyword # keywords) ingredient_lower =
     (if sublist keyword ingredient_lower then True
      else keyword_loop keywords ingredient_lower)"

fun category_loop :: "(string \<times> string list) list \<Rightarrow> string \<Rightarrow> string" where
  "category_loop [] ingredient_lower = ''Other''"
| "category_loop ((category, keywords) # rest) ingredient_lower =
     (if keyword_loop keywords ingredient_lower then category
      else category_loop rest ingredient_lower)"

definition categorize_ingredient :: "string \<Rightarrow> string" where
  "categorize_ingredient ingredient = category_loop food_categories (lower ingredient)"

section \<open>Shopping lists\<close>

text \<open>
  A shopping list is a dictionary from category names to lists of items, modelled as the
  list of its entries in insertion order. \<open>dd_extend k vs d\<close> is
  \<^verbatim>\<open>d[k].extend(vs)\<close> on a \<^verbatim>\<open>defaultdict(list)\<close>: the items are appended to the
  entry of \<open>k\<close>, which is created at the end, empty, when \<open>k\<close> is new. Appending one item
  is \<open>dd_extend k [v]\<close>. \<open>sorted_set\<close> is \<^verbatim>\<open>sorted(list(set(items)))\<close>: the result
  does not depend on the order in which the set is enumerated.
\<close>

type_synonym shopping_list = "(string \<times> string list) list"

fun dd_extend :: "string \<Rightarrow> string list \<Rightarrow> shopping_list \<Rightarrow> shopping_list" where
  "dd_extend k vs [] = [(k, vs)]"
| "dd_extend k vs ((k', ws) # d) =
     (if k = k' then (k', ws @ vs) # d else (k', ws) # dd_extend k vs d)"

definition sorted_set :: "string list \<Rightarrow> string list" where
  "sorted_set items = sort (remdups items)"

text \<open>
  \<^verbatim>\<open>process_ingredients_list\<close>: the first loop (\<open>categorize_all\<close>) files each cleaned
  ingredient of more than two characters under its category; the second loop
  (\<open>collect_sorted\<close>) walks the eight categories in the fixed output order and stores, for
  each one present, the sorted set of its items.
\<close>

fun categorize_all :: "string list \<Rightarrow> shopping_list \<Rightarrow> shopping_list" where
  "categorize_all [] categorized = categorized"
| "categorize_all (ingredient # ingredients) categorized =
     (let cleaned = clean_ingredient ingredient
      in if cleaned \<noteq> [] \<and> length cleaned > 2
         then categorize_all ingredients
                (dd_extend (categorize_ingredient cleaned) [cleaned] categorized)
         else categorize_all ingredients categorized)"

definition category_order :: "string list" where
  "category_order = [''Produce'', ''Meat & Seafood'', ''Dairy & Eggs'', ''Pantry Staples'',
     ''Bakery'', ''Condiments'', ''Frozen'', ''Other'']"

fun collect_sorted :: "string list \<Rightarrow> shopping_list \<Rightarrow> shopping_list" where
  "collect_sorted [] categorized = []"
| "collect_sorted (category # categories) categorized =
     (case map_of categorized category of
        Some items \<Rightarrow> (category, sorted_set items) # collect_sorted categories categorized
      | None \<Rightarrow> collect_sorted categories categorized)"

definition process_ingredients_list :: "string list \<Rightarrow> shopping_list" where
  "process_ingredients_list ingredients =
     collect_sorted category_order (categorize_all ingredients [])"

text \<open>
  \<^verbatim>\<open>merge_shopping_lists(*lists)\<close>: every entry of every input list extends the entry of
  its category in \<^verbatim>\<open>merged\<close> (\<open>extend_from\<close> for one list, \<open>merge_loop\<close> for all);
  then every entry of \<^verbatim>\<open>merged\<close> is replaced by its sorted set.
\<close>

fun extend_from :: "shopping_list \<Rightarrow> shopping_list \<Rightarrow> shopping_list" where
  "extend_from [] merged = merged"
| "extend_from ((category, items) # rest) merged =
     extend_from rest (dd_extend category items merged)"

fun merge_loop :: "shopping_list list \<Rightarrow> shopping_list \<Rightarrow> shopping_list" where
  "merge_loop [] merged = merged"
| "merge_loop (l # ls) merged = merge_loop ls (extend_from l merged)"

definition merge_shopping_lists :: "shopping_list list \<Rightarrow> shopping_list" where
  "merge_shopping_lists shopping_lists =
     map (\<lambda>(category, items). (category, sorted_set items)) (merge_loop shopping_lists [])"


section \<open>Regular expressions\<close>

text \<open>
  The fragment of Python's regular expressions that the source uses: literals, the
  character classes \<^verbatim>\<open>\d\<close>, \<^verbatim>\<open>\s\<close>, \<^verbatim>\<open>.\<close> (any character but the newline) and
  \<^verbatim>\<open>[...]\<close>, greedy \<^verbatim>\<open>*\<close> and \<^verbatim>\<open>+\<close> on a character class, sequence, ordered
  alternation, the greedy \<^verbatim>\<open>?\<close> and numbered groups. \<open>rmatch p s g\<close> lists, in the
  order in which a backtracking matcher tries them, the ways \<open>p\<close> matches at the start of
  \<open>s\<close>: each with the text that remains and the groups captured. Greedy repetition tries
  the longest run first, alternation its left branch first, an optional part its presence
  first. \<^verbatim>\<open>re.match\<close> takes the first of these matches; \<^verbatim>\<open>re.search\<close> tries the
  start positions from left to right.
\<close>

datatype cclass = Digit | Space | Dot | OneOf string

fun in_class :: "cclass \<Rightarrow> char \<Rightarrow> bool" where
  "in_class Digit c = is_digit c"
| "in_class Space c = is_space c"
| "in_class Dot c = (c \<noteq> CHR 0x0A)"
| "in_class (OneOf cs) c = (c \<in> set cs)"

datatype regex =
    Lit string
  | Cls cclass
  | Star cclass
  | Plus cclass
  | Seq regex regex
  | Alt regex regex
  | Opt regex
  | Group nat regex

type_synonym captures = "(nat \<times> string) list"

fun greedy :: "cclass \<Rightarrow> string \<Rightarrow> string list" where
  "greedy k [] = [[]]"
| "greedy k (c # cs) = (if in_class k c then greedy k cs @ [c # cs] else [c # cs])"

fun rmatch :: "regex \<Rightarrow> string \<Rightarrow> captures \<Rightarrow> (string \<times> captures) list" where
  "rmatch (Lit w) s g = (if prefix w s then [(drop (length w) s, g)] else [])"
| "rmatch (Cls k) s g =
     (case s of [] \<Rightarrow> [] | c # cs \<Rightarrow> if in_class k c then [(cs, g)] else [])"
| "rmatch (Star k) s g = map (\<lambda>r. (r, g)) (greedy k s)"
| "rmatch (Plus k) s g =
     (case s of [] \<Rightarrow> []
      | c # cs \<Rightarrow> if in_class k c then map (\<lambda>r. (r, g)) (greedy k cs) else [])"
| "rmatch (Seq a b) s g = concat (map (\<lambda>(s', g'). rmatch b s' g') (rmatch a s g))"
| "rmatch (Alt a b) s g = rmatch a s g @ rmatch b s g"
| "rmatch (Opt a) s g = rmatch a s g @ [(s, g)]"
| "rmatch (Group n a) s g =
     map (\<lambda>(s', g'). (s', (n, take (length s - length s') s) # g')) (rmatch a s g)"

definition re_match :: "regex \<Rightarrow> string \<Rightarrow> captures option" where
  "re_match p s = (case rmatch p s [] of [] \<Rightarrow> None | (s', g) # _ \<Rightarrow> Some g)"

fun re_search :: "regex \<Rightarrow> string \<Rightarrow> bool" where
  "re_search p [] = (re_match p [] \<noteq> None)"
| "re_search p (c # cs) = (re_match p (c # cs) \<noteq> None \<or> re_search p cs)"

text \<open>
  The text of a numbered group. In the patterns of the source every group lies on every
  path through its pattern, so a match always sets it.
\<close>

definition group :: "captures \<Rightarrow> nat \<Rightarrow> string" where
  "group g n = (case map_of g n of Some v \<Rightarrow> v | None \<Rightarrow> [])"

fun seqs :: "regex list \<Rightarrow> regex" where
  "seqs [] = Lit []"
| "seqs [r] = r"
| "seqs (r # rs) = Seq r (seqs rs)"

fun alts :: "string list \<Rightarrow> regex" where
  "alts [] = Lit []"
| "alts [w] = Lit w"
| "alts (w # ws) = Alt (Lit w) (alts ws)"

section \<open>Quantity and unit parser\<close>

text \<open>
  The unit vocabulary in the order of the source, which is the order of the alternation
  \<^verbatim>\<open>'|'.join(self.units)\<close>. \<open>number\<close> is \<^verbatim>\<open>\d+(?:\.\d+)?\<close>, \<open>quantity\<close> is the
  first group of both patterns, a number with an optional second number after \<^verbatim>\<open>-\<close>
  or \<^verbatim>\<open>/\<close>. Both patterns are matched against the lower-cased ingredient; when
  neither matches, the ingredient is returned as it came.
\<close>

definition units :: "string list" where
  "units = [''cup'', ''cups'', ''tablespoon'', ''tablespoons'', ''tbsp'', ''teaspoon'',
     ''teaspoons'', ''tsp'', ''ounce'', ''ounces'', ''oz'', ''pound'', ''pounds'', ''lb'',
     ''lbs'', ''gram'', ''grams'', ''g'', ''kilogram'', ''kg'', ''milliliter'', ''ml'',
     ''liter'', ''liters'', ''pint'', ''quart'', ''gallon'', ''pinch'', ''dash'', ''handful'',
     ''clove'', ''cloves'', ''piece'', ''pieces'', ''slice'', ''slices'']"

definition number :: regex where
  "number = Seq (Plus Digit) (Opt (Seq (Lit ''.'') (Plus Digit)))"

definition quantity :: regex where
  "quantity = Seq number (Opt (seqs [Star Space, Cls (OneOf ''-/''), Star Space, number]))"

definition pattern :: regex where
  "pattern = seqs [Group 1 quantity, Star Space, Group 2 (alts units), Star Space,
                   Opt (Seq (Lit ''of'') (Plus Space)), Group 3 (Plus Dot)]"

definition quantity_pattern :: regex where
  "quantity_pattern = seqs [Group 1 quantity, Plus Space, Group 2 (Plus Dot)]"

definition extract_quantity_and_unit :: "string \<Rightarrow> string \<times> string \<times> string" where
  "extract_quantity_and_unit ingredient =
     (case re_match pattern (lower ingredient) of
        Some m \<Rightarrow> (group m 1, group m 2, group m 3)
      | None \<Rightarrow>
          (case re_match quantity_pattern (lower ingredient) of
             Some m \<Rightarrow> (group m 1, [], group m 2)
           | None \<Rightarrow> ([], [], ingredient)))"

section \<open>Transcript instruction extractor\<close>

text \<open>
  \<^verbatim>\<open>re.split(r'[.!?]+', transcript)\<close>: the text up to the first terminator is a
  sentence; when a terminator follows, the whole run of terminators is skipped and the rest
  is split in the same way, so a transcript that ends with a terminator has an empty last
  sentence.
\<close>

definition is_terminator :: "char \<Rightarrow> bool" where
  "is_terminator c = (c \<in> set ''.!?'')"

function re_split :: "string \<Rightarrow> string list" where
  "re_split s =
     (let piece = takeWhile (\<lambda>c. \<not> is_terminator c) s;
          rest = dropWhile (\<lambda>c. \<not> is_terminator c) s
      in if rest = [] then [piece] else piece # re_split (dropWhile is_terminator rest))"
  by pat_completeness auto
termination
proof (relation "measure length", simp, goal_cases)
  case (1 s piece rest)
  let ?r = "dropWhile (\<lambda>c. \<not> is_terminator c) s"
  from 1 have ne: "?r \<noteq> []" by simp
  then obtain c cs where r: "?r = c # cs"
    by (cases ?r) auto
  have "\<not> \<not> is_terminator (hd ?r)"
    using ne by (rule hd_dropWhile)
  then have "is_terminator c" using r by simp
  then have "length (dropWhile is_terminator (c # cs)) \<le> length cs"
    by (simp add: length_dropWhile_le)
  moreover have "length (c # cs) \<le> length s"
    using length_dropWhile_le [of "\<lambda>c. \<not> is_terminator c" s] r by simp
  ultimately show ?case using 1 r by simp
qed

declare re_split.simps [simp del]

text \<open>
  The three instruction patterns, each a group of alternative words followed by
  \<^verbatim>\<open>.*\<close>. The fourth cooking-method verb ends with e-acute, code point 233. The inner
  loop (\<open>pattern_loop\<close>) searches the patterns in turn in the lower-cased sentence and
  stops at the first one found; the outer loop (\<open>sentence_loop\<close>) appends the trimmed
  sentence, as it was before lower-casing. The result is cut to its first ten entries.
\<close>

definition sequencing_words :: "string list" where
  "sequencing_words = [''first'', ''then'', ''next'', ''after'', ''now'', ''finally'']"

definition action_verbs :: "string list" where
  "action_verbs = [''heat'', ''cook'', ''add'', ''mix'', ''stir'', ''pour'', ''place'', ''put'',
     ''season'', ''serve'']"

definition method_verbs :: "string list" where
  "method_verbs = [''preheat'', ''boil'', ''simmer'', ''saut'' @ [CHR 0xE9], ''fry'', ''bake'',
     ''roast'', ''grill'']"

definition instruction_patterns :: "regex list" where
  "instruction_patterns =
     [Seq (Group 1 (alts sequencing_words)) (Star Dot),
      Seq (Group 1 (alts action_verbs)) (Star Dot),
      Seq (Group 1 (alts method_verbs)) (Star Dot)]"

fun pattern_loop :: "regex list \<Rightarrow> string \<Rightarrow> bool" where
  "pattern_loop [] sentence_lower = False"
| "pattern_loop (p # ps) sentence_lower =
     (if re_search p sentence_lower then True else pattern_loop ps sentence_lower)"

fun sentence_loop :: "string list \<Rightarrow> string list \<Rightarrow> string list" where
  "sentence_loop [] instructions = instructions"
| "sentence_loop (raw # sentences) instructions =
     (let sentence = strip raw
      in if length sentence > 10
         then (if pattern_loop instruction_patterns (lower sentence)
               then sentence_loop sentences (instructions @ [sentence])
               else sentence_loop sentences instructions)
         else sentence_loop sentences instructions)"

definition extract_cooking_instructions :: "string \<Rightarrow> string list" where
  "extract_cooking_instructions transcript = take 10 (sentence_loop (re_split transcript) [])"

section \<open>Recipe summary builder\<close>

text \<open>
  The input dictionaries are read with \<^verbatim>\<open>.get(key, default)\<close>, so every key may be
  missing: a field is \<open>None\<close> when its key is absent. \<^verbatim>\<open>list(set(xs))\<close> enumerates
  the set in an order that Python does not fix; the enumeration is the parameter
  \<open>list_of_set\<close> of \<open>generate_recipe_summary\<close>.
\<close>

record video =
  title :: "string option"
  video_id :: "string option"
  channel_title :: "string option"
  transcript :: "string option"

record recipe_data =
  rd_dish_name :: "string option"
  rd_videos :: "video list option"
  rd_ingredients :: "string list option"

record tutorial =
  t_title :: string
  t_video_id :: string
  channel :: string
  url :: string

record summary =
  dish_name :: string
  total_videos :: nat
  categorized_ingredients :: shopping_list
  cooking_instructions :: "string list"
  video_tutorials :: "tutorial list"

definition get_or :: "'a option \<Rightarrow> 'a \<Rightarrow> 'a" where
  "get_or v d = (case v of Some x \<Rightarrow> x | None \<Rightarrow> d)"

definition make_tutorial :: "video \<Rightarrow> tutorial" where
  "make_tutorial v =
     \<lparr> t_title = get_or (title v) [],
       t_video_id = get_or (video_id v) [],
       channel = get_or (channel_title v) [],
       url = ''https://www.youtube.com/watch?v='' @ get_or (video_id v) [] \<rparr>"

fun video_loop :: "video list \<Rightarrow> string list \<times> tutorial list \<Rightarrow> string list \<times> tutorial list" where
  "video_loop [] acc = acc"
| "video_loop (v # vs) (instructions, tutorials) =
     (let t = get_or (transcript v) []
      in if t \<noteq> []
         then video_loop vs (instructions @ extract_cooking_instructions t,
                             tutorials @ [make_tutorial v])
         else video_loop vs (instructions, tutorials))"

definition generate_recipe_summary ::
  "(string list \<Rightarrow> string list) \<Rightarrow> recipe_data \<Rightarrow> summary" where
  "generate_recipe_summary list_of_set rd =
     (let (instructions, tutorials) = video_loop (get_or (rd_videos rd) []) ([], [])
      in \<lparr> dish_name = get_or (rd_dish_name rd) ''Unknown Dish'',
           total_videos = length (get_or (rd_videos rd) []),
           categorized_ingredients = process_ingredients_list (get_or (rd_ingredients rd) []),
           cooking_instructions = take 15 (list_of_set instructions),
           video_tutorials = tutorials \<rparr>)"



section \<open>Content of a shopping list\<close>

text \<open>
  The items stored under a category: \<open>items_at\<close> reads the entry that a dictionary lookup
  finds (the empty list when the category is absent), and \<open>items_in\<close> is the set of all
  items listed under the category.
\<close>

definition items_at :: "shopping_list \<Rightarrow> string \<Rightarrow> string list" where
  "items_at d c = (case map_of d c of None \<Rightarrow> [] | Some v \<Rightarrow> v)"

definition items_in :: "shopping_list \<Rightarrow> string \<Rightarrow> string set" where
  "items_in l c = (\<Union>(k, vs)\<in>set l. if k = c then set vs else {})"


section \<open>Auxiliary lemmas\<close>










lemma sub_spaces_only_blank:
  "c \<in> set (sub_spaces s) \<Longrightarrow> is_space c \<Longrightarrow> c = CHR '' ''"
  by (induction s rule: sub_spaces.induct) (auto split: if_splits)



lemma map_of_dd_extend:
  "map_of (dd_extend k vs d) = (map_of d)(k \<mapsto> items_at d k @ vs)"
  by (induction d) (auto simp: items_at_def fun_eq_iff)

lemma keys_dd_extend: "fst ` set (dd_extend k vs d) = insert k (fst ` set d)"
  by (induction d) (force split: if_splits)+

lemma map_fst_dd_extend:
  "map fst (dd_extend k vs d) = (if k \<in> fst ` set d then map fst d else map fst d @ [k])"
  by (induction d) (force split: if_splits)+

lemma distinct_dd_extend:
  "distinct (map fst d) \<Longrightarrow> distinct (map fst (dd_extend k vs d))"
  by (simp add: map_fst_dd_extend)

lemma items_at_dd_extend:
  "items_at (dd_extend k vs d) c = (if c = k then items_at d k @ vs else items_at d c)"
  by (simp add: items_at_def map_of_dd_extend)

lemma items_at_absent: "c \<notin> fst ` set d \<Longrightarrow> items_at d c = []"
  by (simp add: items_at_def map_of_eq_None_iff [THEN iffD2])

lemma sorted_set_strict: "sorted_wrt (<) (sorted_set xs)"
  by (simp add: sorted_set_def strict_sorted_iff)

lemma set_sorted_set: "set (sorted_set xs) = set xs"
  by (simp add: sorted_set_def)

lemma sorted_set_id: "sorted_wrt (<) xs \<Longrightarrow> sorted_set xs = xs"
  by (simp add: sorted_set_def strict_sorted_iff distinct_remdups_id sorted_sort_id)

lemma sorted_set_cong: "set xs = set ys \<Longrightarrow> sorted_set xs = sorted_set ys"
  unfolding sorted_set_def
  by (metis sorted_list_of_set_sort_remdups)


lemma keys_extend_from: "fst ` set (extend_from l m) = fst ` set l \<union> fst ` set m"
  by (induction l m rule: extend_from.induct) (auto simp: keys_dd_extend)

lemma distinct_extend_from:
  "distinct (map fst m) \<Longrightarrow> distinct (map fst (extend_from l m))"
  by (induction l m rule: extend_from.induct) (auto simp: distinct_dd_extend)

lemma set_items_extend_from:
  "set (items_at (extend_from l m) c) =
     set (items_at m c) \<union> (\<Union>(k, vs)\<in>set l. if k = c then set vs else {})"
  by (induction l m rule: extend_from.induct) (auto simp: items_at_dd_extend split: if_splits)

lemma keys_merge_loop:
  "fst ` set (merge_loop ls m) = (\<Union>l\<in>set ls. fst ` set l) \<union> fst ` set m"
  by (induction ls m rule: merge_loop.induct) (auto simp: keys_extend_from)

lemma distinct_merge_loop:
  "distinct (map fst m) \<Longrightarrow> distinct (map fst (merge_loop ls m))"
  by (induction ls m rule: merge_loop.induct) (auto simp: distinct_extend_from)


lemma set_items_merge_loop:
  "set (items_at (merge_loop ls m) c) = set (items_at m c) \<union> (\<Union>l\<in>set ls. items_in l c)"
  by (induction ls m rule: merge_loop.induct)
     (auto simp: set_items_extend_from items_in_def split: if_splits)


lemma map_of_items_at:
  "map_of d c = (if c \<in> fst ` set d then Some (items_at d c) else None)"
  by (cases "map_of d c") (auto simp: items_at_def map_of_eq_None_iff dest: map_of_SomeD intro: rev_image_eqI)

lemma items_in_absent: "c \<notin> fst ` set l \<Longrightarrow> items_in l c = {}"
  by (induction l) (auto simp: items_in_def)

lemma items_in_Cons:
  "items_in ((k, vs) # l) c = (if k = c then set vs else {}) \<union> items_in l c"
  by (simp add: items_in_def)

lemma items_in_distinct: "distinct (map fst l) \<Longrightarrow> items_in l c = set (items_at l c)"
proof (induction l)
  case Nil
  then show ?case by (simp add: items_in_def items_at_def)
next
  case (Cons p l)
  obtain k vs where p: "p = (k, vs)" by (cases p)
  show ?case
  proof (cases "k = c")
    case True
    with Cons p have "c \<notin> fst ` set l" by auto
    then have "items_in l c = {}" by (rule items_in_absent)
    with True p show ?thesis by (simp add: items_in_Cons items_at_def)
  next
    case False
    with Cons p show ?thesis by (simp add: items_in_Cons items_at_def)
  qed
qed

lemma map_of_merge_loop:
  "map_of (merge_shopping_lists ls) c =
     (if c \<in> (\<Union>l\<in>set ls. fst ` set l)
      then Some (sorted_set (items_at (merge_loop ls []) c)) else None)"
proof -
  have "map_of (merge_shopping_lists ls) c =
          map_option sorted_set (map_of (merge_loop ls []) c)"
    unfolding merge_shopping_lists_def by (simp add: map_of_map)
  then show ?thesis
    by (simp add: map_of_items_at [of "merge_loop ls []"] keys_merge_loop)
qed

lemma sorted_set_eq: "sorted_set xs = sorted_list_of_set (set xs)"
  by (simp add: sorted_set_def sorted_list_of_set_sort_remdups)

lemma map_of_merge:
  "map_of (merge_shopping_lists ls) c =
     (if c \<in> (\<Union>l\<in>set ls. fst ` set l)
      then Some (sorted_list_of_set (\<Union>l\<in>set ls. items_in l c)) else None)"
proof -
  have "set (items_at (merge_loop ls []) c) = (\<Union>l\<in>set ls. items_in l c)"
    by (simp add: set_items_merge_loop items_at_def [of "[]"])
  then show ?thesis
    by (simp add: map_of_merge_loop sorted_set_eq)
qed

lemma map_fst_merge:
  "map fst (merge_shopping_lists ls) = map fst (merge_loop ls [])"
  unfolding merge_shopping_lists_def by (simp add: case_prod_unfold comp_def)

lemma keys_merge:
  "fst ` set (merge_shopping_lists ls) = (\<Union>l\<in>set ls. fst ` set l)"
proof -
  have "fst ` set (merge_shopping_lists ls) = set (map fst (merge_shopping_lists ls))"
    by simp
  also have "\<dots> = fst ` set (merge_loop ls [])"
    by (simp only: map_fst_merge set_map)
  finally show ?thesis by (simp add: keys_merge_loop)
qed

lemma distinct_merge: "distinct (map fst (merge_shopping_lists ls))"
  by (simp add: map_fst_merge distinct_merge_loop)

lemma finite_items_in: "finite (items_in l c)"
  by (auto simp: items_in_def)

lemma items_in_merge:
  "items_in (merge_shopping_lists ls) c = (\<Union>l\<in>set ls. items_in l c)"
proof -
  have "items_in (merge_shopping_lists ls) c = set (items_at (merge_shopping_lists ls) c)"
    by (rule items_in_distinct [OF distinct_merge])
  also have "\<dots> = (\<Union>l\<in>set ls. items_in l c)"
  proof (cases "c \<in> (\<Union>l\<in>set ls. fst ` set l)")
    case True
    then show ?thesis
      by (simp add: items_at_def map_of_merge finite_items_in)
  next
    case False
    then have "\<forall>l\<in>set ls. items_in l c = {}"
      by (simp add: items_in_absent)
    with False show ?thesis
      by (simp add: items_at_def map_of_merge)
  qed
  finally show ?thesis .
qed

lemma dd_extend_fresh: "k \<notin> fst ` set m \<Longrightarrow> dd_extend k vs m = m @ [(k, vs)]"
  by (induction m) auto

lemma extend_from_fresh:
  "distinct (map fst (m @ l)) \<Longrightarrow> extend_from l m = m @ l"
proof (induction l m rule: extend_from.induct)
  case (1 merged)
  then show ?case by simp
next
  case (2 category items rest merged)
  from 2(2) have fresh: "category \<notin> fst ` set merged" by auto
  then have e: "dd_extend category items merged = merged @ [(category, items)]"
    by (rule dd_extend_fresh)
  from 2(2) have "distinct (map fst ((merged @ [(category, items)]) @ rest))" by simp
  with 2(1) e show ?case by simp
qed

lemma map_sorted_set_id:
  "\<forall>(c, items)\<in>set A. sorted_wrt (<) items \<Longrightarrow>
   map (\<lambda>(category, items). (category, sorted_set items)) A = A"
  by (induction A) (auto simp: sorted_set_id)

lemma dd_extend_nonempty:
  "\<forall>(c, items)\<in>set d. items \<noteq> [] \<Longrightarrow> vs \<noteq> [] \<Longrightarrow>
   \<forall>(c, items)\<in>set (dd_extend k vs d). items \<noteq> []"
  by (induction d) (auto split: if_splits)

lemma extend_from_nonempty:
  "\<forall>(c, items)\<in>set m. items \<noteq> [] \<Longrightarrow> \<forall>(c, items)\<in>set l. items \<noteq> [] \<Longrightarrow>
   \<forall>(c, items)\<in>set (extend_from l m). items \<noteq> []"
proof (induction l m rule: extend_from.induct)
  case (1 merged)
  then show ?case by simp
next
  case (2 category items rest merged)
  from 2(3) have "items \<noteq> []" by simp
  with 2(2) have "\<forall>(c, items)\<in>set (dd_extend category items merged). items \<noteq> []"
    by (rule dd_extend_nonempty)
  moreover from 2(3) have "\<forall>(c, items)\<in>set rest. items \<noteq> []" by simp
  ultimately show ?case using 2(1) by simp
qed

lemma merge_loop_nonempty:
  "\<forall>(c, items)\<in>set m. items \<noteq> [] \<Longrightarrow>
   \<forall>l\<in>set ls. \<forall>(c, items)\<in>set l. items \<noteq> [] \<Longrightarrow>
   \<forall>(c, items)\<in>set (merge_loop ls m). items \<noteq> []"
proof (induction ls m rule: merge_loop.induct)
  case (1 merged)
  then show ?case by simp
next
  case (2 l ls merged)
  from 2(3) have "\<forall>(c, items)\<in>set l. items \<noteq> []" by simp
  with 2(2) have "\<forall>(c, items)\<in>set (extend_from l merged). items \<noteq> []"
    by (rule extend_from_nonempty)
  with 2(1,3) show ?case by simp
qed

lemma sorted_set_Nil: "sorted_set xs = [] \<longleftrightarrow> xs = []"
  using set_sorted_set [of xs] by (metis set_empty)

lemma merge_entries:
  "(c, items) \<in> set (merge_shopping_lists ls) \<Longrightarrow>
   \<exists>raw. (c, raw) \<in> set (merge_loop ls []) \<and> items = sorted_set raw"
  unfolding merge_shopping_lists_def by auto

lemma categorize_all_Cons:
  "categorize_all (x # xs) d =
     (if 2 < length (clean_ingredient x)
      then categorize_all xs
             (dd_extend (categorize_ingredient (clean_ingredient x)) [clean_ingredient x] d)
      else categorize_all xs d)"
  by (auto simp: Let_def)

lemma categorize_all_nonempty:
  "\<forall>(c, items)\<in>set d. items \<noteq> [] \<Longrightarrow>
   \<forall>(c, items)\<in>set (categorize_all xs d). items \<noteq> []"
proof (induction xs arbitrary: d)
  case Nil
  then show ?case by simp
next
  case (Cons x xs)
  have e: "\<forall>(c, items)\<in>set (dd_extend k [v] d). items \<noteq> []" for k v
    using Cons.prems by (rule dd_extend_nonempty) simp
  show ?case
  proof (cases "2 < length (clean_ingredient x)")
    case True
    then show ?thesis
      using Cons.IH [OF e] by (simp only: categorize_all_Cons if_True)
  next
    case False
    then show ?thesis
      using Cons.IH [OF Cons.prems] by (simp only: categorize_all_Cons if_False)
  qed
qed






lemma collect_sorted_entries:
  "(c, items) \<in> set (collect_sorted cs cat) \<longleftrightarrow>
     c \<in> set cs \<and> (\<exists>raw. map_of cat c = Some raw \<and> items = sorted_set raw)"
  by (induction cs) (auto split: option.splits)



lemma category_names:
  "map fst food_categories = [''Produce'', ''Meat & Seafood'', ''Dairy & Eggs'',
     ''Pantry Staples'', ''Frozen'', ''Bakery'', ''Condiments'']"
  by (simp add: food_categories_def)


lemma keyword_loop_iff: "keyword_loop kws s \<longleftrightarrow> (\<exists>k\<in>set kws. sublist k s)"
  by (induction kws) auto

lemma category_loop_skip:
  "\<forall>(c, kws)\<in>set pre. \<not> keyword_loop kws s \<Longrightarrow>
   category_loop (pre @ rest) s = category_loop rest s"
  by (induction pre) auto

lemma category_loop_prefix_range:
  "keyword_loop kws s \<Longrightarrow>
   category_loop (pre @ (c, kws) # rest) s \<in> insert c (fst ` set pre)"
  by (induction pre) force+




lemma distinct_category_names: "distinct (map fst food_categories)"
  unfolding category_names by simp

lemma first_hit:
  assumes "food_categories = pre @ (c, kws) # post"
    and "\<forall>(c', kws')\<in>set pre. \<forall>k\<in>set kws'. \<not> sublist k (lower s)"
    and "\<exists>k\<in>set kws. sublist k (lower s)"
  shows "categorize_ingredient s = c"
proof -
  from assms(2) have "\<forall>(c', kws')\<in>set pre. \<not> keyword_loop kws' (lower s)"
    by (auto simp: keyword_loop_iff)
  then have "category_loop (pre @ (c, kws) # post) (lower s) =
             category_loop ((c, kws) # post) (lower s)"
    by (rule category_loop_skip)
  moreover have "keyword_loop kws (lower s)"
    using assms(3) by (simp add: keyword_loop_iff)
  ultimately show ?thesis
    using assms(1) by (simp add: categorize_ingredient_def)
qed

lemma greedy_nonempty: "greedy k s \<noteq> []"
  by (induction s) auto

lemma rmatch_alts:
  "ws \<noteq> [] \<Longrightarrow> rmatch (alts ws) s g \<noteq> [] \<longleftrightarrow> (\<exists>w\<in>set ws. prefix w s)"
  by (induction ws rule: alts.induct) auto

lemma rmatch_group_star:
  "rmatch (Seq (Group n a) (Star k)) s g \<noteq> [] \<longleftrightarrow> rmatch a s g \<noteq> []"
  by (cases "rmatch a s g") (auto simp: greedy_nonempty)

lemma re_match_iff: "re_match p s \<noteq> None \<longleftrightarrow> rmatch p s [] \<noteq> []"
  by (auto simp: re_match_def split: list.splits)

lemma match_words:
  assumes "ws \<noteq> []"
  shows "re_match (Seq (Group n (alts ws)) (Star k)) s = None \<longleftrightarrow>
         \<not> (\<exists>w\<in>set ws. prefix w s)"
proof -
  have "re_match (Seq (Group n (alts ws)) (Star k)) s \<noteq> None \<longleftrightarrow>
        rmatch (alts ws) s [] \<noteq> []"
    by (simp only: re_match_iff rmatch_group_star)
  then show ?thesis using rmatch_alts [OF assms, of s "[]"] by blast
qed

lemma re_search_words:
  assumes "ws \<noteq> []"
  shows "re_search (Seq (Group n (alts ws)) (Star k)) s \<longleftrightarrow> (\<exists>w\<in>set ws. sublist w s)"
proof (induction s)
  case Nil
  show ?case
    by (simp add: match_words [OF assms])
next
  case (Cons c cs)
  then show ?case
    by (simp add: match_words [OF assms] sublist_Cons_right) blast
qed

lemma pattern_loop_words:
  "pattern_loop instruction_patterns t \<longleftrightarrow>
     (\<exists>w\<in>set (sequencing_words @ action_verbs @ method_verbs). sublist w t)"
proof -
  have ne: "sequencing_words \<noteq> []" "action_verbs \<noteq> []" "method_verbs \<noteq> []"
    by (simp_all add: sequencing_words_def action_verbs_def method_verbs_def)
  show ?thesis
    unfolding instruction_patterns_def pattern_loop.simps
    by (simp only: re_search_words [OF ne(1)] re_search_words [OF ne(2)]
          re_search_words [OF ne(3)]) auto
qed




lemma video_loop_Cons:
  "video_loop (v # vs) (ins, tuts) =
     (if get_or (transcript v) [] \<noteq> []
      then video_loop vs (ins @ extract_cooking_instructions (get_or (transcript v) []),
                          tuts @ [make_tutorial v])
      else video_loop vs (ins, tuts))"
  by (simp add: Let_def)

lemma video_loop_filter:
  "video_loop vs (ins, tuts) =
     (ins @ concat (map (\<lambda>v. extract_cooking_instructions (get_or (transcript v) []))
                      (filter (\<lambda>v. get_or (transcript v) [] \<noteq> []) vs)),
      tuts @ map make_tutorial (filter (\<lambda>v. get_or (transcript v) [] \<noteq> []) vs))"
proof (induction vs arbitrary: ins tuts)
  case Nil
  then show ?case by simp
next
  case (Cons v vs)
  show ?case
    by (simp only: video_loop_Cons Cons.IH split: if_split) simp
qed

section \<open>Quantity parse examples\<close>

text \<open>
  Claim C1. The parser is run on the three example inputs. \<open>"1/2 cup milk"\<close> gives
  \<open>("1/2", "cup", "milk")\<close> and \<open>"a pinch of salt"\<close>, which has no leading digit,
  falls through to the no-match case \<open>("", "", "a pinch of salt")\<close>. On
  \<open>"2 cups chopped onions"\<close> the unit alternation tries \<open>cup\<close> before \<open>cups\<close>, the
  rest of the pattern accepts the remaining text, and the result is
  \<open>("2", "cup", "s chopped onions")\<close>, not \<open>("2", "cups", "chopped onions")\<close>.
\<close>

theorem extract_quantity_and_unit_examples:
  "extract_quantity_and_unit ''2 cups chopped onions'' = (''2'', ''cup'', ''s chopped onions'')
   \<and> extract_quantity_and_unit ''1/2 cup milk'' = (''1/2'', ''cup'', ''milk'')
   \<and> extract_quantity_and_unit ''a pinch of salt'' = ([], [], ''a pinch of salt'')"
  by code_simp

section \<open>Tie-break of the category classifier\<close>

text \<open>
  Claim C2, as the code has it. The classifier walks the categories in the order of the
  dictionary \<open>food_categories\<close>, which is Produce, Meat & Seafood, Dairy & Eggs, Pantry
  Staples, Frozen, Bakery, Condiments, and returns at the first keyword that occurs in the
  lower-cased ingredient. So the category returned is the first one in that order with a
  keyword in the string, and of two categories that both have a keyword in the string the
  later one is never returned.
\<close>

theorem categorize_ingredient_first_hit:
  "map fst food_categories = [''Produce'', ''Meat & Seafood'', ''Dairy & Eggs'',
     ''Pantry Staples'', ''Frozen'', ''Bakery'', ''Condiments'']
   \<and> (food_categories = pre @ (c, kws) # post
        \<and> (\<forall>(c', kws')\<in>set pre. \<forall>k\<in>set kws'. \<not> sublist k (lower s))
        \<and> (\<exists>k\<in>set kws. sublist k (lower s))
        \<longrightarrow> categorize_ingredient s = c)
   \<and> (food_categories = pre' @ (c1, kws1) # mid @ (c2, kws2) # post'
        \<and> (\<exists>k\<in>set kws1. sublist k (lower s)) \<and> (\<exists>k\<in>set kws2. sublist k (lower s))
        \<longrightarrow> categorize_ingredient s \<noteq> c2)"
proof (intro conjI impI)
  show "map fst food_categories = [''Produce'', ''Meat & Seafood'', ''Dairy & Eggs'',
     ''Pantry Staples'', ''Frozen'', ''Bakery'', ''Condiments'']"
    by (rule category_names)
next
  assume a: "food_categories = pre @ (c, kws) # post
        \<and> (\<forall>(c', kws')\<in>set pre. \<forall>k\<in>set kws'. \<not> sublist k (lower s))
        \<and> (\<exists>k\<in>set kws. sublist k (lower s))"
  then show "categorize_ingredient s = c"
    using first_hit [of pre c kws post s] by blast
next
  assume a: "food_categories = pre' @ (c1, kws1) # mid @ (c2, kws2) # post'
        \<and> (\<exists>k\<in>set kws1. sublist k (lower s)) \<and> (\<exists>k\<in>set kws2. sublist k (lower s))"
  then have "keyword_loop kws1 (lower s)"
    by (simp add: keyword_loop_iff)
  then have "category_loop (pre' @ (c1, kws1) # mid @ (c2, kws2) # post') (lower s)
               \<in> insert c1 (fst ` set pre')"
    by (rule category_loop_prefix_range)
  then have r: "categorize_ingredient s \<in> insert c1 (fst ` set pre')"
    using a by (simp add: categorize_ingredient_def)
  have "distinct (map fst (pre' @ (c1, kws1) # mid @ (c2, kws2) # post'))"
    using distinct_category_names a by simp
  then have "c2 \<notin> insert c1 (fst ` set pre')"
    by auto
  with r show "categorize_ingredient s \<noteq> c2" by auto
qed


theorem categorize_ingredient_first_hit_witness:
  "sublist ''frozen pizza'' (lower ''Frozen pizza with ketchup'')
   \<and> sublist ''ketchup'' (lower ''Frozen pizza with ketchup'')
   \<and> categorize_ingredient ''Frozen pizza with ketchup'' = ''Frozen''
   \<and> categorize_ingredient ''Frozen pizza with ketchup'' \<noteq> ''Condiments''"
proof -
  let ?s = "''Frozen pizza with ketchup''"
  let ?pre = "take 4 food_categories"
  let ?fro = "[''frozen vegetables'', ''frozen fruit'', ''ice cream'', ''frozen pizza'']"
  let ?bak = "[(''Bakery'', [''bread'', ''rolls'', ''bagels'', ''croissants'', ''tortillas''])]"
  let ?con = "[''ketchup'', ''mustard'', ''mayo'', ''hot sauce'', ''soy sauce'', ''worcestershire'']"
  have f: "sublist ''frozen pizza'' (lower ?s)" by code_simp
  have k: "sublist ''ketchup'' (lower ?s)" by code_simp
  have split1: "food_categories = ?pre @ (''Frozen'', ?fro) # ?bak @ [(''Condiments'', ?con)]"
    by (simp add: food_categories_def)
  have split2: "food_categories = ?pre @ (''Frozen'', ?fro) # ?bak @ (''Condiments'', ?con) # []"
    by (simp add: food_categories_def)
  have none: "\<forall>(c', kws')\<in>set ?pre. \<forall>k\<in>set kws'. \<not> sublist k (lower ?s)"
    by code_simp
  have h1: "\<exists>k\<in>set ?fro. sublist k (lower ?s)" using f by simp
  have h2: "\<exists>k\<in>set ?con. sublist k (lower ?s)" using k by simp
  from categorize_ingredient_first_hit
         [of ?pre "''Frozen''" ?fro "?bak @ [(''Condiments'', ?con)]" ?s
             ?pre "''Frozen''" ?fro ?bak "''Condiments''" ?con "[]"]
       split1 split2 none h1 h2
  have "categorize_ingredient ?s = ''Frozen'' \<and> categorize_ingredient ?s \<noteq> ''Condiments''"
    by blast
  then show ?thesis using f k by blast
qed

text \<open>
  As stated, with Condiments enumerated before Frozen, the claim fails: a string with a
  Condiments keyword and a Frozen keyword is classified Frozen.
\<close>

theorem categorize_ingredient_order_counterexample:
  "sublist ''ketchup'' (lower ''ketchup for frozen pizza'')
   \<and> sublist ''frozen pizza'' (lower ''ketchup for frozen pizza'')
   \<and> categorize_ingredient ''ketchup for frozen pizza'' = ''Frozen''"
  by code_simp

section \<open>Category coverage\<close>




section \<open>Instruction-signal patterns\<close>

text \<open>
  Claim C4, as the code has it. Each of the three patterns is searched for in the
  lower-cased sentence, so a pattern is found exactly when one of its words occurs anywhere
  in the sentence: this holds for the sequencing words as for the action verbs and the
  cooking-method verbs. A sentence whose trimmed form is longer than 10 characters is
  appended when at least one word of the three lists occurs in it, and not appended
  otherwise.
\<close>

theorem instruction_signal_anywhere:
  "(re_search (instruction_patterns ! 0) t \<longleftrightarrow> (\<exists>w\<in>set sequencing_words. sublist w t))
   \<and> (re_search (instruction_patterns ! 1) t \<longleftrightarrow> (\<exists>w\<in>set action_verbs. sublist w t))
   \<and> (re_search (instruction_patterns ! 2) t \<longleftrightarrow> (\<exists>w\<in>set method_verbs. sublist w t))
   \<and> sentence_loop [raw] acc =
       (if 10 < length (strip raw)
           \<and> (\<exists>w\<in>set (sequencing_words @ action_verbs @ method_verbs).
                 sublist w (lower (strip raw)))
        then acc @ [strip raw] else acc)"
proof -
  have ne: "sequencing_words \<noteq> []" "action_verbs \<noteq> []" "method_verbs \<noteq> []"
    by (simp_all add: sequencing_words_def action_verbs_def method_verbs_def)
  have "re_search (instruction_patterns ! 0) t \<longleftrightarrow> (\<exists>w\<in>set sequencing_words. sublist w t)"
    using re_search_words [OF ne(1)] by (simp add: instruction_patterns_def)
  moreover
  have "re_search (instruction_patterns ! 1) t \<longleftrightarrow> (\<exists>w\<in>set action_verbs. sublist w t)"
    using re_search_words [OF ne(2)] by (simp add: instruction_patterns_def)
  moreover
  have "re_search (instruction_patterns ! 2) t \<longleftrightarrow> (\<exists>w\<in>set method_verbs. sublist w t)"
    using re_search_words [OF ne(3)] by (simp add: instruction_patterns_def)
  moreover
  have "sentence_loop [raw] acc =
       (if 10 < length (strip raw)
           \<and> (\<exists>w\<in>set (sequencing_words @ action_verbs @ method_verbs).
                 sublist w (lower (strip raw)))
        then acc @ [strip raw] else acc)"
    by (simp only: sentence_loop.simps Let_def pattern_loop_words split: if_split) simp
  ultimately show ?thesis by blast
qed

theorem instruction_signal_anywhere_witness:
  "sentence_loop [''  We will THEN eat it  ''] [] = [''We will THEN eat it'']
   \<and> sentence_loop [''  We will not eat it  ''] [] = []"
proof -
  let ?a = "''  We will THEN eat it  ''"
  let ?b = "''  We will not eat it  ''"
  have a: "10 < length (strip ?a)
           \<and> (\<exists>w\<in>set (sequencing_words @ action_verbs @ method_verbs).
                 sublist w (lower (strip ?a)))"
    by code_simp
  have b: "\<not> (\<exists>w\<in>set (sequencing_words @ action_verbs @ method_verbs).
                 sublist w (lower (strip ?b)))"
    by code_simp
  have sa: "strip ?a = ''We will THEN eat it''" by code_simp
  have "sentence_loop [?a] [] = [strip ?a]"
    using instruction_signal_anywhere [of _ ?a "[]"] a by simp
  moreover have "sentence_loop [?b] [] = []"
    using instruction_signal_anywhere [of _ ?b "[]"] b by simp
  ultimately show ?thesis using sa by simp
qed

text \<open>
  As stated, with the sequencing words accepted only at the start of the sentence, the
  claim fails: a sentence with \<open>then\<close> in the middle, and no action or cooking-method
  verb, is extracted.
\<close>

theorem sequencing_word_not_at_start_counterexample:
  "\<not> (\<exists>w\<in>set sequencing_words. prefix w (lower ''and then we are done''))
   \<and> \<not> (\<exists>w\<in>set (action_verbs @ method_verbs). sublist w (lower ''and then we are done''))
   \<and> extract_cooking_instructions ''and then we are done'' = [''and then we are done'']"
  by code_simp

section \<open>Instruction extraction: splitting, length filter and the cap of ten\<close>



section \<open>Merging is commutative and associative in content\<close>

text \<open>
  Claim C6. For all shopping lists \<open>A\<close>, \<open>B\<close> and \<open>C\<close>, merging \<open>A\<close> with \<open>B\<close> and \<open>B\<close> with
  \<open>A\<close> gives the same mapping from categories to item sequences, and merging is
  associative in the same sense. The merged mapping has the categories of either input,
  each mapped to the sorted enumeration of the union of the items the inputs list under
  that category.
\<close>

theorem merge_shopping_lists_comm_assoc:
  "map_of (merge_shopping_lists [A, B]) = map_of (merge_shopping_lists [B, A])
   \<and> map_of (merge_shopping_lists [merge_shopping_lists [A, B], C]) =
       map_of (merge_shopping_lists [A, merge_shopping_lists [B, C]])
   \<and> map_of (merge_shopping_lists [A, B]) c =
       (if c \<in> fst ` set A \<union> fst ` set B
        then Some (sorted_list_of_set (items_in A c \<union> items_in B c)) else None)"
proof (intro conjI)
  show "map_of (merge_shopping_lists [A, B]) = map_of (merge_shopping_lists [B, A])"
    by (rule ext) (simp add: map_of_merge Un_commute disj_commute)
  show "map_of (merge_shopping_lists [merge_shopping_lists [A, B], C]) =
        map_of (merge_shopping_lists [A, merge_shopping_lists [B, C]])"
    by (rule ext) (simp add: map_of_merge items_in_merge keys_merge Un_assoc disj_assoc)
  show "map_of (merge_shopping_lists [A, B]) c =
       (if c \<in> fst ` set A \<union> fst ` set B
        then Some (sorted_list_of_set (items_in A c \<union> items_in B c)) else None)"
    by (simp add: map_of_merge)
qed

theorem merge_shopping_lists_comm_assoc_witness:
  "map_of (merge_shopping_lists [[(''Produce'', [''onion'', ''garlic''])],
                                 [(''Bakery'', [''bread'']), (''Produce'', [''lemon'', ''garlic''])]])
   = map_of (merge_shopping_lists [[(''Bakery'', [''bread'']), (''Produce'', [''lemon'', ''garlic''])],
                                   [(''Produce'', [''onion'', ''garlic''])]])
   \<and> merge_shopping_lists [[(''Produce'', [''onion'', ''garlic''])],
                            [(''Bakery'', [''bread'']), (''Produce'', [''lemon'', ''garlic''])]]
     = [(''Produce'', [''garlic'', ''lemon'', ''onion'']), (''Bakery'', [''bread''])]"
proof -
  have "merge_shopping_lists [[(''Produce'', [''onion'', ''garlic''])],
                            [(''Bakery'', [''bread'']), (''Produce'', [''lemon'', ''garlic''])]]
     = [(''Produce'', [''garlic'', ''lemon'', ''onion'']), (''Bakery'', [''bread''])]"
    by code_simp
  then show ?thesis
    using merge_shopping_lists_comm_assoc
      [of "[(''Produce'', [''onion'', ''garlic''])]"
          "[(''Bakery'', [''bread'']), (''Produce'', [''lemon'', ''garlic''])]"]
    by simp
qed

section \<open>The sorted, duplicate-free and non-empty invariant\<close>

text \<open>
  Claim C7, as the code has it. Every item sequence in the result of
  \<open>process_ingredients_list\<close> is strictly sorted (ascending, no repeated element) and
  non-empty. Every item sequence in the result of \<open>merge_shopping_lists\<close> is strictly
  sorted; it is non-empty when no input list maps a category to an empty sequence.
\<close>

theorem shopping_list_invariant:
  "(\<forall>(c, items)\<in>set (process_ingredients_list xs). sorted_wrt (<) items \<and> items \<noteq> [])
   \<and> (\<forall>(c, items)\<in>set (merge_shopping_lists ls). sorted_wrt (<) items)
   \<and> ((\<forall>l\<in>set ls. \<forall>(c, items)\<in>set l. items \<noteq> []) \<longrightarrow>
        (\<forall>(c, items)\<in>set (merge_shopping_lists ls). items \<noteq> []))"
proof (intro conjI impI)
  show "\<forall>(c, items)\<in>set (process_ingredients_list xs). sorted_wrt (<) items \<and> items \<noteq> []"
  proof (clarify, intro conjI)
    fix c items
    assume e: "(c, items) \<in> set (process_ingredients_list xs)"
    then obtain raw where raw: "map_of (categorize_all xs []) c = Some raw"
      and items: "items = sorted_set raw"
      unfolding process_ingredients_list_def collect_sorted_entries by blast
    show "sorted_wrt (<) items" using items by (simp add: sorted_set_strict)
    have "\<forall>(c, items)\<in>set (categorize_all xs []). items \<noteq> []"
      by (rule categorize_all_nonempty) simp
    moreover have "(c, raw) \<in> set (categorize_all xs [])"
      using raw by (rule map_of_SomeD)
    ultimately have "raw \<noteq> []" by blast
    then show "items \<noteq> []" using items by (simp add: sorted_set_Nil)
  qed
next
  show "\<forall>(c, items)\<in>set (merge_shopping_lists ls). sorted_wrt (<) items"
  proof clarify
    fix c items
    assume "(c, items) \<in> set (merge_shopping_lists ls)"
    then obtain raw where "items = sorted_set raw"
      using merge_entries by blast
    then show "sorted_wrt (<) items" by (simp add: sorted_set_strict)
  qed
next
  assume ne: "\<forall>l\<in>set ls. \<forall>(c, items)\<in>set l. items \<noteq> []"
  have all: "\<forall>(c, items)\<in>set (merge_loop ls []). items \<noteq> []"
    by (rule merge_loop_nonempty [OF _ ne]) simp
  show "\<forall>(c, items)\<in>set (merge_shopping_lists ls). items \<noteq> []"
  proof clarify
    fix c
    assume "(c, []) \<in> set (merge_shopping_lists ls)"
    then obtain raw where "(c, raw) \<in> set (merge_loop ls [])" "[] = sorted_set raw"
      using merge_entries by blast
    then show False using all by (auto simp: sorted_set_Nil [THEN iffD1, OF sym])
  qed
qed

theorem shopping_list_invariant_witness:
  "(''Produce'', [''garlic'', ''red onion'']) \<in>
     set (process_ingredients_list [''Red  Onion'', ''garlic '', ''red onion'', ''Bread''])
   \<and> sorted_wrt (<) [''garlic'', ''red onion''] \<and> [''garlic'', ''red onion''] \<noteq> []
   \<and> (''Produce'', [''garlic'', ''lemon'', ''onion'']) \<in>
     set (merge_shopping_lists [[(''Produce'', [''onion'', ''garlic''])], [(''Produce'', [''lemon''])]])
   \<and> sorted_wrt (<) [''garlic'', ''lemon'', ''onion'']"
proof -
  let ?I = "[''Red  Onion'', ''garlic '', ''red onion'', ''Bread'']"
  let ?L = "[[(''Produce'', [''onion'', ''garlic''])], [(''Produce'', [''lemon''])]]"
  have p: "(''Produce'', [''garlic'', ''red onion'']) \<in> set (process_ingredients_list ?I)"
    by code_simp
  have m: "(''Produce'', [''garlic'', ''lemon'', ''onion'']) \<in> set (merge_shopping_lists ?L)"
    by code_simp
  have ne: "\<forall>l\<in>set ?L. \<forall>(c, items)\<in>set l. items \<noteq> []"
    by simp
  from shopping_list_invariant [of ?I ?L] p
  have "sorted_wrt (<) [''garlic'', ''red onion''] \<and> [''garlic'', ''red onion''] \<noteq> []"
    by fast
  moreover from shopping_list_invariant [of ?I ?L] m ne
  have "sorted_wrt (<) [''garlic'', ''lemon'', ''onion'']"
    by fast
  ultimately show ?thesis using p m by blast
qed

text \<open>
  As stated, the claim fails for \<open>merge_shopping_lists\<close>: an input that maps a category to
  the empty sequence keeps that category, with an empty sequence, in the result.
\<close>

theorem merge_keeps_empty_category_counterexample:
  "merge_shopping_lists [[(''Produce'', [''onion''])], [(''Bakery'', [])]]
     = [(''Produce'', [''onion'']), (''Bakery'', [])]"
  by code_simp

section \<open>Counts of the recipe summary\<close>

text \<open>
  Claim C8. The summary's \<open>total_videos\<close> is the number of input video records, whether
  or not they have a transcript; a tutorial entry is made only for a video with a
  non-empty transcript, so there are at most \<open>total_videos\<close> tutorials. The
  \<open>cooking_instructions\<close> field is the first 15 entries of the enumeration of the set of
  all instructions extracted from the videos, so it has at most 15 entries; when the
  enumeration lists each element of the set once, the field has no repeated entry and holds
  only extracted instructions. The order in which Python enumerates a set is not fixed, so
  the enumeration is a parameter \<open>list_of_set\<close> of the model.
\<close>

theorem generate_recipe_summary_counts:
  "total_videos (generate_recipe_summary list_of_set rd) = length (get_or (rd_videos rd) [])
   \<and> length (video_tutorials (generate_recipe_summary list_of_set rd)) =
       length (filter (\<lambda>v. get_or (transcript v) [] \<noteq> []) (get_or (rd_videos rd) []))
   \<and> length (video_tutorials (generate_recipe_summary list_of_set rd))
       \<le> total_videos (generate_recipe_summary list_of_set rd)
   \<and> length (cooking_instructions (generate_recipe_summary list_of_set rd)) \<le> 15
   \<and> cooking_instructions (generate_recipe_summary list_of_set rd) =
       take 15 (list_of_set (concat (map (\<lambda>v. extract_cooking_instructions (get_or (transcript v) []))
          (filter (\<lambda>v. get_or (transcript v) [] \<noteq> []) (get_or (rd_videos rd) [])))))
   \<and> ((\<forall>xs. distinct (list_of_set xs) \<and> set (list_of_set xs) = set xs) \<longrightarrow>
        distinct (cooking_instructions (generate_recipe_summary list_of_set rd))
        \<and> set (cooking_instructions (generate_recipe_summary list_of_set rd))
            \<subseteq> (\<Union>v\<in>set (get_or (rd_videos rd) []).
                  set (extract_cooking_instructions (get_or (transcript v) []))))"
proof -
  let ?vs = "get_or (rd_videos rd) []"
  let ?all = "concat (map (\<lambda>v. extract_cooking_instructions (get_or (transcript v) []))
                (filter (\<lambda>v. get_or (transcript v) [] \<noteq> []) ?vs))"
  have tv: "total_videos (generate_recipe_summary list_of_set rd) = length ?vs"
    by (simp add: generate_recipe_summary_def case_prod_unfold Let_def)
  have vt: "video_tutorials (generate_recipe_summary list_of_set rd) =
            map make_tutorial (filter (\<lambda>v. get_or (transcript v) [] \<noteq> []) ?vs)"
    by (simp add: generate_recipe_summary_def video_loop_filter Let_def)
  have ci: "cooking_instructions (generate_recipe_summary list_of_set rd) =
            take 15 (list_of_set ?all)"
    by (simp add: generate_recipe_summary_def video_loop_filter Let_def)
  have sub: "set ?all \<subseteq> (\<Union>v\<in>set ?vs. set (extract_cooking_instructions (get_or (transcript v) [])))"
    by auto
  have set_sem: "distinct (take 15 (list_of_set ?all)) \<and> set (take 15 (list_of_set ?all))
            \<subseteq> (\<Union>v\<in>set ?vs. set (extract_cooking_instructions (get_or (transcript v) [])))"
    if h: "\<forall>xs. distinct (list_of_set xs) \<and> set (list_of_set xs) = set xs"
  proof
    show "distinct (take 15 (list_of_set ?all))"
      using h by (simp add: distinct_take)
    have "set (take 15 (list_of_set ?all)) \<subseteq> set (list_of_set ?all)"
      by (rule set_take_subset)
    also have "\<dots> = set ?all" using h by simp
    finally show "set (take 15 (list_of_set ?all))
            \<subseteq> (\<Union>v\<in>set ?vs. set (extract_cooking_instructions (get_or (transcript v) [])))"
      using sub by (rule subset_trans)
  qed
  have len: "length (filter (\<lambda>v. get_or (transcript v) [] \<noteq> []) ?vs) \<le> length ?vs"
    by (rule length_filter_le)
  show ?thesis
    unfolding tv vt ci using set_sem len by simp
qed


theorem generate_recipe_summary_counts_witness:
  "total_videos (generate_recipe_summary remdups
     \<lparr> rd_dish_name = Some ''Soup'',
       rd_videos = Some
         [\<lparr> title = Some ''One'', video_id = Some ''a1'', channel_title = None,
             transcript = Some ''Add the salt to the pot. Add the salt to the pot.'' \<rparr>,
          \<lparr> title = Some ''Two'', video_id = None, channel_title = None,
             transcript = None \<rparr>,
          \<lparr> title = Some ''Three'', video_id = None, channel_title = None,
             transcript = Some [] \<rparr>],
       rd_ingredients = None \<rparr>) = 3
   \<and> length (video_tutorials (generate_recipe_summary remdups
     \<lparr> rd_dish_name = Some ''Soup'',
       rd_videos = Some
         [\<lparr> title = Some ''One'', video_id = Some ''a1'', channel_title = None,
             transcript = Some ''Add the salt to the pot. Add the salt to the pot.'' \<rparr>,
          \<lparr> title = Some ''Two'', video_id = None, channel_title = None,
             transcript = None \<rparr>,
          \<lparr> title = Some ''Three'', video_id = None, channel_title = None,
             transcript = Some [] \<rparr>],
       rd_ingredients = None \<rparr>)) = 1
   \<and> cooking_instructions (generate_recipe_summary remdups
     \<lparr> rd_dish_name = Some ''Soup'',
       rd_videos = Some
         [\<lparr> title = Some ''One'', video_id = Some ''a1'', channel_title = None,
             transcript = Some ''Add the salt to the pot. Add the salt to the pot.'' \<rparr>,
          \<lparr> title = Some ''Two'', video_id = None, channel_title = None,
             transcript = None \<rparr>,
          \<lparr> title = Some ''Three'', video_id = None, channel_title = None,
             transcript = Some [] \<rparr>],
       rd_ingredients = None \<rparr>) = [''Add the salt to the pot'']"
proof -
  let ?v1 = "\<lparr> title = Some ''One'', video_id = Some ''a1'', channel_title = None,
             transcript = Some ''Add the salt to the pot. Add the salt to the pot.'' \<rparr>"
  let ?v2 = "\<lparr> title = Some ''Two'', video_id = None, channel_title = None,
             transcript = None \<rparr>"
  let ?v3 = "\<lparr> title = Some ''Three'', video_id = None, channel_title = None,
             transcript = Some [] \<rparr>"
  let ?rd = "\<lparr> rd_dish_name = Some ''Soup'', rd_videos = Some [?v1, ?v2, ?v3],
             rd_ingredients = None \<rparr>"
  have x: "extract_cooking_instructions ''Add the salt to the pot. Add the salt to the pot.''
           = [''Add the salt to the pot'', ''Add the salt to the pot'']"
    by code_simp
  have en: "\<forall>xs::string list. distinct (remdups xs) \<and> set (remdups xs) = set xs"
    by simp
  from generate_recipe_summary_counts [of remdups ?rd] en
  have "total_videos (generate_recipe_summary remdups ?rd) = 3
        \<and> length (video_tutorials (generate_recipe_summary remdups ?rd)) = 1
        \<and> cooking_instructions (generate_recipe_summary remdups ?rd) =
            take 15 (remdups (extract_cooking_instructions
              ''Add the salt to the pot. Add the salt to the pot.''))"
    by (simp add: get_or_def)
  then show ?thesis by (simp add: x)
qed

section \<open>Normal form of a cleaned ingredient and the length filter\<close>



section \<open>Merging is idempotent on well-formed lists\<close>

text \<open>
  Claim C10. Let \<open>A\<close> be a shopping list (a dictionary: no category occurs twice) in which
  every item sequence is strictly sorted, that is, sorted and free of duplicates. Then
  merging \<open>A\<close> alone returns \<open>A\<close>, and merging \<open>A\<close> with itself returns a list with the
  content of \<open>A\<close>.
\<close>

theorem merge_shopping_lists_idem:
  assumes "distinct (map fst A)"
    and "\<forall>(c, items)\<in>set A. sorted_wrt (<) items"
  shows "merge_shopping_lists [A] = A
         \<and> map_of (merge_shopping_lists [A, A]) = map_of A"
proof
  have "extend_from A [] = A"
    using assms(1) extend_from_fresh [of "[]" A] by simp
  then show "merge_shopping_lists [A] = A"
    using assms(2) by (simp add: merge_shopping_lists_def map_sorted_set_id)
next
  show "map_of (merge_shopping_lists [A, A]) = map_of A"
  proof (rule ext)
    fix c
    show "map_of (merge_shopping_lists [A, A]) c = map_of A c"
    proof (cases "map_of A c")
      case None
      then have "c \<notin> fst ` set A" by (simp add: map_of_eq_None_iff)
      then show ?thesis using None by (simp add: map_of_merge)
    next
      case (Some items)
      then have m: "(c, items) \<in> set A" by (rule map_of_SomeD)
      then have k: "c \<in> fst ` set A" by (rule rev_image_eqI) simp
      from m assms(2) have s: "sorted_wrt (<) items" by auto
      have "items_in A c = set (items_at A c)"
        using assms(1) by (rule items_in_distinct)
      then have "items_in A c = set items" using Some by (simp add: items_at_def)
      then have "sorted_list_of_set (items_in A c) = items"
        using sorted_set_id [OF s] by (simp add: sorted_set_eq)
      then show ?thesis using Some k by (simp add: map_of_merge)
    qed
  qed
qed

theorem merge_shopping_lists_idem_witness:
  "distinct (map fst [(''Produce'', [''garlic'', ''onion'']), (''Bakery'', [''bread''])])
   \<and> sorted_wrt (<) [''garlic'', ''onion''] \<and> sorted_wrt (<) [''bread'']
   \<and> merge_shopping_lists [[(''Produce'', [''garlic'', ''onion'']), (''Bakery'', [''bread''])]]
       = [(''Produce'', [''garlic'', ''onion'']), (''Bakery'', [''bread''])]
   \<and> map_of (merge_shopping_lists
        [[(''Produce'', [''garlic'', ''onion'']), (''Bakery'', [''bread''])],
         [(''Produce'', [''garlic'', ''onion'']), (''Bakery'', [''bread''])]])
       = map_of [(''Produce'', [''garlic'', ''onion'']), (''Bakery'', [''bread''])]"
proof -
  have d: "distinct (map fst [(''Produce'', [''garlic'', ''onion'']), (''Bakery'', [''bread''])])"
    by simp
  have s1: "sorted_wrt (<) [''garlic'', ''onion'']" by code_simp
  have s2: "sorted_wrt (<) [''bread'']" by simp
  have s: "\<forall>(c, items)\<in>set [(''Produce'', [''garlic'', ''onion'']), (''Bakery'', [''bread''])].
             sorted_wrt (<) items"
    using s1 s2 by simp
  show ?thesis
    using merge_shopping_lists_idem [OF d s] d s1 s2 by simp
qed

end
